theory Spec2Isabelle
  imports Complex_Main "HOL-Library.Multiset" "HOL-Library.List_Lexorder" "HOL-Library.Char_ord"
    "HOL-Library.Sublist" "HOL-Library.Log_Nat"
begin

section \<open>The fingerprint store\<close>

text \<open>
  The store is the MongoDB collection \<open>images\<close>. A document has the fields written by
  \<open>_add_to_database\<close>; the collection is the list of its documents in natural (insertion)
  order. \<open>_id\<close> is the unique key of the collection.
\<close>

type_synonym path = string

record meta =
  file_size :: nat
  image_size :: string
  capture_time :: string

record doc = meta +
  doc_id :: path
  hash :: string

text \<open>The projection pushed by the \<open>$group\<close> stage of \<open>find\<close>, and the group document.\<close>

record item = meta +
  file_name :: path

record cluster =
  cluster_id :: string
  total :: nat
  items :: "item list"

datatype db_error = DuplicateKeyError

definition count_id :: "doc list \<Rightarrow> path \<Rightarrow> nat" where
  \<comment> \<open>\<open>db.count({"_id": file})\<close>\<close>
  "count_id db file = length (filter (\<lambda>d. doc_id d = file) db)"

definition insert_one :: "doc \<Rightarrow> doc list \<Rightarrow> db_error + doc list" where
  "insert_one d db = (if 0 < count_id db (doc_id d) then Inl DuplicateKeyError else Inr (db @ [d]))"


definition item_of :: "doc \<Rightarrow> item" where
  "item_of d = \<lparr>file_size = file_size d, image_size = image_size d,
                capture_time = capture_time d, file_name = doc_id d\<rparr>"

text \<open>
  The \<open>$group\<close> stage: one group per value of \<open>hash\<close>, \<open>total\<close> counting its documents
  (\<open>$sum: 1\<close>) and \<open>items\<close> collecting their projections (\<open>$push\<close>) in the order of the
  collection. Groups are listed in the order in which their hash first occurs.
\<close>

fun push_item :: "doc \<Rightarrow> cluster list \<Rightarrow> cluster list" where
  "push_item d [] = [\<lparr>cluster_id = hash d, total = 1, items = [item_of d]\<rparr>]"
| "push_item d (c # cs) =
     (if cluster_id c = hash d
      then c\<lparr>total := total c + 1, items := items c @ [item_of d]\<rparr> # cs
      else c # push_item d cs)"

definition group_by_hash :: "doc list \<Rightarrow> cluster list" where
  "group_by_hash db = foldl (\<lambda>cs d. push_item d cs) [] db"

definition aggregate :: "doc list \<Rightarrow> cluster list" where
  \<comment> \<open>the \<open>$group\<close> stage followed by \<open>$match: total > 1\<close>\<close>
  "aggregate db = filter (\<lambda>c. 1 < total c) (group_by_hash db)"

section \<open>The duplicate resolver\<close>

text \<open>
  \<open>same_time\<close> tests \<open>"Time unknown" in items\<close>, where \<open>items\<close> is the list of the
  group's projected documents. Python's \<open>in\<close> on a list compares the left operand with each
  element by \<open>==\<close>; the values compared are a string and dictionaries.
\<close>

datatype pyval = PyStr string | PyDict item

definition py_in :: "pyval \<Rightarrow> pyval list \<Rightarrow> bool" where
  "py_in x xs = (x \<in> set xs)"

definition same_time :: "cluster \<Rightarrow> bool" where
  "same_time dup =
     (let its = items dup in
      if py_in (PyStr ''Time unknown'') (map PyDict its) then True
      else if 1 < card (set (map capture_time its)) then False
      else True)"

definition find_dups :: "doc list \<Rightarrow> bool \<Rightarrow> cluster list" where
  "find_dups db match_time =
     (let dups = aggregate db in
      if match_time then filter same_time dups else dups)"

section \<open>Images and the fingerprint function\<close>

text \<open>
  An opened image carries its size \<open>(width, height)\<close>, its raster as a list of rows, and
  what a call of \<open>_getexif\<close> does on it: the attribute is missing (any format but JPEG,
  and every image produced by \<open>rotate\<close>), the call raises, it returns \<open>None\<close>, or it
  returns the dictionary of numeric EXIF tags.
\<close>

datatype exif_attr = NoGetexif | GetexifRaises | GetexifNone | GetexifDict "(nat \<times> string) list"

record 'p image =
  img_size :: "nat \<times> nat"
  pixels :: "'p list list"
  getexif :: exif_attr

definition wf_image :: "'p image \<Rightarrow> bool" where
  "wf_image img =
     (length (pixels img) = snd (img_size img) \<and>
      list_all (\<lambda>row. length row = fst (img_size img)) (pixels img))"

text \<open>
  Pillow's \<open>Image.transpose\<close> for the three rotations. With \<open>w\<close> columns and \<open>h\<close> rows,
  \<open>ROTATE_90\<close> (counter-clockwise) writes \<open>out[w-1-x][y] = in[y][x]\<close>, \<open>ROTATE_180\<close>
  writes \<open>out[h-1-y][w-1-x] = in[y][x]\<close> and \<open>ROTATE_270\<close> writes
  \<open>out[x][h-1-y] = in[y][x]\<close>. The result is a plain image, without \<open>_getexif\<close>.
\<close>

datatype transpose_method = ROTATE_90 | ROTATE_180 | ROTATE_270

fun transpose_img :: "'p image \<Rightarrow> transpose_method \<Rightarrow> 'p image" where
  "transpose_img img ROTATE_90 =
     (let (w, h) = img_size img; m = pixels img in
      \<lparr>img_size = (h, w),
       pixels = map (\<lambda>r. map (\<lambda>c. m ! c ! (w - 1 - r)) [0..<h]) [0..<w],
       getexif = NoGetexif\<rparr>)"
| "transpose_img img ROTATE_180 =
     (let (w, h) = img_size img; m = pixels img in
      \<lparr>img_size = (w, h),
       pixels = map (\<lambda>r. map (\<lambda>c. m ! (h - 1 - r) ! (w - 1 - c)) [0..<w]) [0..<h],
       getexif = NoGetexif\<rparr>)"
| "transpose_img img ROTATE_270 =
     (let (w, h) = img_size img; m = pixels img in
      \<lparr>img_size = (h, w),
       pixels = map (\<lambda>r. map (\<lambda>c. m ! (h - 1 - c) ! r) [0..<h]) [0..<w],
       getexif = NoGetexif\<rparr>)"

text \<open>
  \<open>img.rotate(angle, expand=True)\<close>: Pillow reduces the angle modulo 360 and takes the
  exact paths below for the multiples of 90. Any other angle resamples the image; that path
  is outside this development (\<open>hash_file\<close> never takes it) and is left as the copy.
\<close>

definition rotate_expand :: "'p image \<Rightarrow> nat \<Rightarrow> 'p image" where
  "rotate_expand img angle =
     (let a = angle mod 360 in
      if a = 0 then img\<lparr>getexif := NoGetexif\<rparr>
      else if a = 180 then transpose_img img ROTATE_180
      else if a = 90 then transpose_img img ROTATE_90
      else if a = 270 then transpose_img img ROTATE_270
      else img\<lparr>getexif := NoGetexif\<rparr>)"

text \<open>
  What the program reads from its surroundings and does not change: the files found by
  \<open>get_image_files\<close> under a path (the directory walk and the MIME sniffing are external),
  the outcome of \<open>Image.open\<close> and of decoding (\<open>None\<close> is the \<open>OSError\<close> that
  \<open>hash_file\<close> catches; it raises nothing else), \<open>os.path.getsize\<close> (\<open>None\<close> is
  \<open>FileNotFoundError\<close>, the one exception that \<open>get_file_size\<close> handles),
  \<open>str(imagehash.phash(img, hash_size))\<close> as a function of the raster, Pillow's table
  \<open>ExifTags.TAGS\<close>, the error other than \<open>FileNotFoundError\<close> that moving a file raises
  (\<open>None\<close>: it raises none), and the global \<open>HASH_SIZE\<close>.
\<close>

record 'p env =
  image_files :: "path \<Rightarrow> path list"
  img_open :: "path \<Rightarrow> 'p image option"
  getsize :: "path \<Rightarrow> nat option"
  phash :: "nat \<times> nat \<Rightarrow> 'p list list \<Rightarrow> nat \<Rightarrow> string"
  TAGS :: "nat \<Rightarrow> string option"
  move_error :: "path \<Rightarrow> string option"
  HASH_SIZE :: nat

definition str_phash :: "'p env \<Rightarrow> 'p image \<Rightarrow> nat \<Rightarrow> string" where
  "str_phash env img hash_size = phash env (img_size img) (pixels img) hash_size"

definition fingerprint :: "'p env \<Rightarrow> 'p image \<Rightarrow> nat \<Rightarrow> string" where
  \<comment> \<open>the loop over the four angles of \<open>hash_file\<close>, then \<open>''.join(sorted(hashes))\<close>\<close>
  "fingerprint env img hash_size =
     concat (sort (map (\<lambda>angle. str_phash env (if 0 < angle then rotate_expand img angle else img) hash_size)
                       [0, 90, 180, 270]))"

section \<open>Metadata\<close>

fun str_nat :: "nat \<Rightarrow> string" where
  \<comment> \<open>Python's \<open>str\<close> of a non-negative integer\<close>
  "str_nat n =
     (if n < 10 then [''0123456789'' ! n]
      else str_nat (n div 10) @ [''0123456789'' ! (n mod 10)])"

declare str_nat.simps [simp del]

definition get_file_size :: "'p env \<Rightarrow> path \<Rightarrow> nat" where
  "get_file_size env fname = (case getsize env fname of Some n \<Rightarrow> n | None \<Rightarrow> 0)"

definition get_image_size :: "'p image \<Rightarrow> string" where
  "get_image_size img = (let (w, h) = img_size img in str_nat w @ '' x '' @ str_nat h)"

datatype py_exception = AttributeError | KeyError | ValueError | OtherException

definition exif_by_name :: "'p env \<Rightarrow> (nat \<times> string) list \<Rightarrow> (string \<Rightarrow> string option)" where
  \<comment> \<open>\<open>{ExifTags.TAGS[k]: v for k, v in items if k in ExifTags.TAGS}\<close>\<close>
  "exif_by_name env kvs =
     foldl (\<lambda>m (k, v). case TAGS env k of None \<Rightarrow> m | Some name \<Rightarrow> m(name \<mapsto> v)) Map.empty kvs"

definition read_capture_time :: "'p env \<Rightarrow> 'p image \<Rightarrow> py_exception + string" where
  \<comment> \<open>the body of the \<open>try\<close> of \<open>get_capture_time\<close>\<close>
  "read_capture_time env img =
     (case getexif img of
        NoGetexif \<Rightarrow> Inl AttributeError
      | GetexifRaises \<Rightarrow> Inl OtherException
      | GetexifNone \<Rightarrow> Inl AttributeError
      | GetexifDict kvs \<Rightarrow>
          (case exif_by_name env kvs ''DateTimeOriginal'' of
             None \<Rightarrow> Inl KeyError
           | Some v \<Rightarrow> Inr v))"

definition get_capture_time :: "'p env \<Rightarrow> 'p image \<Rightarrow> string" where
  "get_capture_time env img =
     (case read_capture_time env img of Inr v \<Rightarrow> v | Inl _ \<Rightarrow> ''Time unknown'')"

text \<open>
  \<open>math.log2\<close> of an integer first converts it to a double, rounding to 53 significant
  bits, ties to even. A positive double of 53 bits or more is an integer, so the converted
  value is given as an integer. \<open>math.ceil(math.log2(x))\<close> is then \<open>ceillog2\<close> of that
  value, the ceiling of the real logarithm: the rounding of the logarithm itself is not
  written out. (Integers of 1024 bits and more take another path in CPython, which rounds in
  the same way.)
\<close>

definition float_of_int :: "int \<Rightarrow> int" where
  "float_of_int x =
     (let e = bitlen x in
      if e \<le> 53 then x
      else (let sh = nat (e - 53); q = x div 2 ^ sh; r = x mod 2 ^ sh; half = 2 ^ (sh - 1)
            in (if half < r \<or> (r = half \<and> odd q) then q + 1 else q) * 2 ^ sh))"

definition next_power_of_2 :: "int \<Rightarrow> py_exception + int" where
  \<comment> \<open>\<open>math.log2\<close> raises \<open>ValueError\<close> below zero\<close>
  "next_power_of_2 x =
     (if x = 0 then Inr 1
      else if x < 0 then Inl ValueError
      else Inr (2 ^ ceillog2 (nat (float_of_int x))))"

section \<open>Hashing\<close>

type_synonym hashed = "path \<times> string \<times> nat \<times> string \<times> string"

definition hash_file :: "'p env \<Rightarrow> path \<Rightarrow> nat \<Rightarrow> hashed option" where
  "hash_file env file hash_size =
     (case img_open env file of
        None \<Rightarrow> None
      | Some img \<Rightarrow>
          (let fsize = get_file_size env file;
               isize = get_image_size img;
               ctime = get_capture_time env img;
               hashes = fingerprint env img hash_size
           in Some (file, hashes, fsize, isize, ctime)))"

fun yield_not_none :: "'a option list \<Rightarrow> 'a list" where
  "yield_not_none [] = []"
| "yield_not_none (None # rs) = yield_not_none rs"
| "yield_not_none (Some r # rs) = r # yield_not_none rs"

definition hash_files_parallel :: "'p env \<Rightarrow> path list \<Rightarrow> hashed list" where
  \<comment> \<open>\<open>executor.map\<close> returns the results in the order of its input\<close>
  "hash_files_parallel env files =
     yield_not_none (map (\<lambda>file. hash_file env file (HASH_SIZE env)) files)"

section \<open>The state the program changes\<close>

text \<open>
  The collection, the paths that exist on disk as files and as directories, and the lines
  printed by the main process, oldest first. The lines that \<open>hash_file\<close> prints come from
  the worker processes and are not recorded.
\<close>

record world =
  db :: "doc list"
  files :: "path set"
  dirs :: "path set"
  out :: "string list"

definition cprint :: "string \<Rightarrow> world \<Rightarrow> world" where
  "cprint msg w = w\<lparr>out := out w @ [msg]\<rparr>"

section \<open>The indexer\<close>

definition add_to_database :: "hashed \<Rightarrow> world \<Rightarrow> world" where
  "add_to_database r w =
     (case r of (file, hash', fsize, isize, ctime) \<Rightarrow>
        (case insert_one \<lparr>file_size = fsize, image_size = isize, capture_time = ctime,
                          doc_id = file, hash = hash'\<rparr> (db w) of
           Inr db' \<Rightarrow> w\<lparr>db := db'\<rparr>
         | Inl DuplicateKeyError \<Rightarrow> cprint (''Duplicate key: '' @ file) w))"

definition in_database :: "path \<Rightarrow> doc list \<Rightarrow> bool" where
  "in_database file db' = (0 < count_id db' file)"

fun new_image_files :: "path list \<Rightarrow> world \<Rightarrow> path list \<times> world" where
  "new_image_files [] w = ([], w)"
| "new_image_files (file # fs) w =
     (if in_database file (db w)
      then new_image_files fs (cprint (CHR 0x09 # ''Already hashed '' @ file) w)
      else (let (rest, w') = new_image_files fs w in (file # rest, w')))"

text \<open>
  \<open>add\<close>: \<open>executor.map\<close> reads the whole generator \<open>files\<close> when it is called, so
  every existence check of a path is made before the first insertion for that path. The
  number of worker processes does not enter the result.
\<close>

definition add_path :: "'p env \<Rightarrow> path \<Rightarrow> world \<Rightarrow> world" where
  \<comment> \<open>the body of the loop of \<open>add\<close>\<close>
  "add_path env p w =
     (let w1 = cprint (''Hashing '' @ p) w;
          (fs, w2) = new_image_files (image_files env p) w1;
          w3 = foldl (\<lambda>w' r. add_to_database r w') w2 (hash_files_parallel env fs)
      in cprint ''...done'' w3)"

fun add :: "'p env \<Rightarrow> path list \<Rightarrow> world \<Rightarrow> world" where
  "add env [] w = w"
| "add env (p # paths) w = add env paths (add_path env p w)"


section \<open>Disposal\<close>









definition doomed :: "cluster list \<Rightarrow> path list" where
  \<comment> \<open>\<open>x['file_name'] for dup in duplicates for x in dup['items'][1:]\<close>\<close>
  "doomed duplicates = concat (map (\<lambda>dup. map file_name (tl (items dup))) duplicates)"



section \<open>Auxiliary notions and sample data\<close>

definition grouped :: "doc list \<Rightarrow> cluster \<Rightarrow> bool" where
  \<comment> \<open>the group holds, in store order, exactly the documents of its hash\<close>
  "grouped ds c =
     (items c = map item_of (filter (\<lambda>d. hash d = cluster_id c) ds) \<and>
      total c = length (items c) \<and> items c \<noteq> [])"

definition sample_doc :: "path \<Rightarrow> string \<Rightarrow> string \<Rightarrow> doc" where
  "sample_doc f h t =
     \<lparr>file_size = 1024, image_size = ''4 x 3'', capture_time = t, doc_id = f, hash = h\<rparr>"

definition sample_image :: "nat image" where
  "sample_image = \<lparr>img_size = (3, 2), pixels = [[1, 2, 3], [4, 5, 6]],
                    getexif = GetexifDict [(306, ''2020:01:01 10:00:00'')]\<rparr>"

definition sample_env :: "nat env" where
  "sample_env =
     \<lparr>image_files = (\<lambda>p. if p = ''/pics'' then [''/pics/a.jpg'', ''/pics/b.jpg''] else []),
      img_open = (\<lambda>f. if f = ''/pics/a.jpg'' then Some sample_image else None),
      getsize = (\<lambda>f. if f = ''/pics/a.jpg'' then Some 1024 else None),
      phash = (\<lambda>sz px n. concat (map str_nat (concat px))),
      TAGS = (\<lambda>k. if k = 36867 then Some ''DateTimeOriginal''
                   else if k = 306 then Some ''DateTime'' else None),
      move_error = (\<lambda>f. None),
      HASH_SIZE = 8\<rparr>"



definition sample_store :: "doc list" where
  "sample_store =
     [sample_doc ''/pics/a.jpg'' ''ABCD'' ''2020:01:01'',
      sample_doc ''/pics/b.jpg'' ''ABCD'' ''2020:01:01'',
      sample_doc ''/pics/c.jpg'' ''ABCD'' ''2020:01:01'']"

definition sample_world :: "path set \<Rightarrow> world" where
  "sample_world on_disk = \<lparr>db = sample_store, files = on_disk, dirs = {}, out = []\<rparr>"


section \<open>Grouping and the resolver\<close>

lemma same_time_eq: "same_time c = (card (set (map capture_time (items c))) \<le> 1)"
  by (auto simp: same_time_def py_in_def Let_def)

lemma group_by_hash_snoc: "group_by_hash (ds @ [d]) = push_item d (group_by_hash ds)"
  by (simp add: group_by_hash_def)

lemma push_item_ids: "cluster_id ` set (push_item d cs) = insert (hash d) (cluster_id ` set cs)"
  by (induction cs) auto

lemma push_item_grouped:
  assumes "distinct (map cluster_id cs)" and "\<forall>c\<in>set cs. grouped ds c"
    and "hash d \<notin> cluster_id ` set cs \<longrightarrow> (\<forall>e\<in>set ds. hash e \<noteq> hash d)"
  shows "distinct (map cluster_id (push_item d cs)) \<and>
         (\<forall>c\<in>set (push_item d cs). grouped (ds @ [d]) c)"
  using assms
proof (induction cs)
  case Nil
  then show ?case by (auto simp: grouped_def filter_empty_conv)
next
  case (Cons c cs)
  show ?case
  proof (cases "cluster_id c = hash d")
    case True
    with Cons.prems show ?thesis by (auto simp: grouped_def)
  next
    case False
    have "distinct (map cluster_id (push_item d cs)) \<and>
          (\<forall>c\<in>set (push_item d cs). grouped (ds @ [d]) c)"
      using Cons.prems False by (intro Cons.IH) auto
    moreover have "grouped (ds @ [d]) c"
      using Cons.prems False by (auto simp: grouped_def)
    ultimately show ?thesis
      using Cons.prems False by (auto simp: push_item_ids)
  qed
qed

lemma group_by_hash_grouped:
  "distinct (map cluster_id (group_by_hash ds)) \<and>
   (\<forall>c\<in>set (group_by_hash ds). grouped ds c) \<and>
   cluster_id ` set (group_by_hash ds) = hash ` set ds"
proof (induction ds rule: rev_induct)
  case Nil
  show ?case by (simp add: group_by_hash_def)
next
  case (snoc d ds)
  then have fresh: "hash d \<notin> cluster_id ` set (group_by_hash ds) \<longrightarrow>
      (\<forall>e\<in>set ds. hash e \<noteq> hash d)"
    by (metis imageI)
  from snoc fresh have "distinct (map cluster_id (push_item d (group_by_hash ds))) \<and>
      (\<forall>c\<in>set (push_item d (group_by_hash ds)). grouped (ds @ [d]) c)"
    by (intro push_item_grouped) simp_all
  with snoc show ?case
    by (simp add: group_by_hash_snoc push_item_ids)
qed

lemma find_dups_subset: "set (find_dups ds mt) \<subseteq> {c \<in> set (group_by_hash ds). 1 < total c}"
  by (auto simp: find_dups_def aggregate_def Let_def)

text \<open>
  C8. Every cluster that \<open>find\<close> returns, with or without \<open>match_time\<close>, has a count
  above one; the count is the number of its members, and the members are exactly the stored
  records of the cluster's fingerprint, in store order. Of three stored records, two with
  one fingerprint and one with another, \<open>find\<close> without \<open>match_time\<close> returns one
  cluster, of the two matching records, wherever the third record stands.
\<close>

theorem find_dups_clusters:
  "(\<forall>c\<in>set (find_dups ds mt).
      1 < total c \<and> total c = length (items c) \<and>
      items c = map item_of (filter (\<lambda>d. hash d = cluster_id c) ds)) \<and>
   (hash a = hash b \<and> hash c \<noteq> hash a \<longrightarrow>
      find_dups [a, b, c] False = [\<lparr>cluster_id = hash a, total = 2, items = [item_of a, item_of b]\<rparr>] \<and>
      find_dups [a, c, b] False = [\<lparr>cluster_id = hash a, total = 2, items = [item_of a, item_of b]\<rparr>] \<and>
      find_dups [c, a, b] False = [\<lparr>cluster_id = hash a, total = 2, items = [item_of a, item_of b]\<rparr>])"
proof
  show "\<forall>c\<in>set (find_dups ds mt).
      1 < total c \<and> total c = length (items c) \<and>
      items c = map item_of (filter (\<lambda>d. hash d = cluster_id c) ds)"
    using find_dups_subset[of ds mt] group_by_hash_grouped[of ds] by (auto simp: grouped_def)
next
  show "hash a = hash b \<and> hash c \<noteq> hash a \<longrightarrow>
      find_dups [a, b, c] False = [\<lparr>cluster_id = hash a, total = 2, items = [item_of a, item_of b]\<rparr>] \<and>
      find_dups [a, c, b] False = [\<lparr>cluster_id = hash a, total = 2, items = [item_of a, item_of b]\<rparr>] \<and>
      find_dups [c, a, b] False = [\<lparr>cluster_id = hash a, total = 2, items = [item_of a, item_of b]\<rparr>]"
    by (simp add: find_dups_def aggregate_def group_by_hash_def)
qed

theorem find_dups_clusters_witness:
  "hash (sample_doc ''/pics/a.jpg'' ''ABCD'' ''2020:01:01'') = hash (sample_doc ''/pics/b.jpg'' ''ABCD'' ''2021:01:01'') \<and>
   hash (sample_doc ''/pics/c.jpg'' ''WXYZ'' ''2020:01:01'') \<noteq> hash (sample_doc ''/pics/a.jpg'' ''ABCD'' ''2020:01:01'') \<and>
   find_dups [sample_doc ''/pics/a.jpg'' ''ABCD'' ''2020:01:01'',
              sample_doc ''/pics/b.jpg'' ''ABCD'' ''2021:01:01'',
              sample_doc ''/pics/c.jpg'' ''WXYZ'' ''2020:01:01''] False =
     [\<lparr>cluster_id = ''ABCD'', total = 2,
       items = [item_of (sample_doc ''/pics/a.jpg'' ''ABCD'' ''2020:01:01''),
                item_of (sample_doc ''/pics/b.jpg'' ''ABCD'' ''2021:01:01'')]\<rparr>] \<and>
   length (find_dups [sample_doc ''/pics/a.jpg'' ''ABCD'' ''2020:01:01'',
              sample_doc ''/pics/b.jpg'' ''ABCD'' ''2021:01:01'',
              sample_doc ''/pics/c.jpg'' ''WXYZ'' ''2020:01:01''] False) = 1"
  using find_dups_clusters [of "[sample_doc ''/pics/a.jpg'' ''ABCD'' ''2020:01:01'',
              sample_doc ''/pics/b.jpg'' ''ABCD'' ''2021:01:01'',
              sample_doc ''/pics/c.jpg'' ''WXYZ'' ''2020:01:01'']" False
      "sample_doc ''/pics/a.jpg'' ''ABCD'' ''2020:01:01''"
      "sample_doc ''/pics/b.jpg'' ''ABCD'' ''2021:01:01''"
      "sample_doc ''/pics/c.jpg'' ''WXYZ'' ''2020:01:01''"]
  by (simp add: sample_doc_def)

text \<open>
  C1. With \<open>match_time\<close> set, a cluster one of whose members has the capture time
  \<open>Time unknown\<close> is to be kept. \<open>same_time\<close> looks for the sentinel among the item
  dictionaries of the cluster, where no string is ever found (\<open>same_time_eq\<close>), so the
  members' capture times are compared as they are. For the store below, of two records with
  one fingerprint and the capture times \<open>2020:01:01\<close> and \<open>Time unknown\<close>, \<open>find\<close> returns
  the cluster without \<open>match_time\<close> and drops it with \<open>match_time\<close>.
\<close>

theorem find_dups_drops_unknown_time:
  "find_dups [sample_doc ''/pics/a.jpg'' ''ABCD'' ''2020:01:01'',
              sample_doc ''/pics/b.jpg'' ''ABCD'' ''Time unknown''] False =
     [\<lparr>cluster_id = ''ABCD'', total = 2,
       items = [item_of (sample_doc ''/pics/a.jpg'' ''ABCD'' ''2020:01:01''),
                item_of (sample_doc ''/pics/b.jpg'' ''ABCD'' ''Time unknown'')]\<rparr>] \<and>
   find_dups [sample_doc ''/pics/a.jpg'' ''ABCD'' ''2020:01:01'',
              sample_doc ''/pics/b.jpg'' ''ABCD'' ''Time unknown''] True = []"
  by (simp add: find_dups_def aggregate_def group_by_hash_def same_time_def py_in_def
      sample_doc_def item_of_def)

section \<open>Hash-size normalisation\<close>

lemma float_of_int_small: "0 \<le> x \<Longrightarrow> x < 2 ^ 53 \<Longrightarrow> float_of_int x = x"
  using bitlen_le_iff_power[of x 53] by (simp add: float_of_int_def)

lemma next_power_of_2_small:
  "0 < x \<Longrightarrow> x < 2 ^ 53 \<Longrightarrow> next_power_of_2 x = Inr (2 ^ ceillog2 (nat x))"
  by (simp add: next_power_of_2_def float_of_int_small)

lemma next_power_of_2_examples:
  "next_power_of_2 0 = Inr 1 \<and> next_power_of_2 5 = Inr 8 \<and>
   next_power_of_2 8 = Inr 8 \<and> next_power_of_2 9 = Inr 16"
proof -
  have logs: "ceillog2 5 = 3" "ceillog2 8 = 3" "ceillog2 9 = 4"
    by code_simp+
  show ?thesis
    using logs by (simp add: next_power_of_2_small) (simp add: next_power_of_2_def)
qed

lemma next_power_of_2_least_small:
  assumes "0 \<le> x" and "x \<le> 2 ^ 48"
  shows "\<exists>k. next_power_of_2 x = Inr (2 ^ k) \<and> x \<le> 2 ^ k \<and> (\<forall>j. x \<le> 2 ^ j \<longrightarrow> k \<le> j)"
proof (cases "x = 0")
  case True
  then show ?thesis by (intro exI[of _ 0]) (simp add: next_power_of_2_def)
next
  case False
  with assms have pos: "0 < x" and small: "x < 2 ^ 53" by simp_all
  define n where "n = nat x"
  have n: "0 < n" "x = int n" using pos by (simp_all add: n_def)
  have above: "x \<le> 2 ^ ceillog2 n"
    using le_two_power_ceillog2[of n] n(2) by (metis of_nat_le_iff of_nat_numeral of_nat_power)
  have lowest: "\<forall>j. x \<le> 2 ^ j \<longrightarrow> ceillog2 n \<le> j"
  proof (intro allI impI)
    fix j :: nat assume "x \<le> 2 ^ j"
    then have "n \<le> 2 ^ j" using n(2) by (metis of_nat_le_iff of_nat_numeral of_nat_power)
    then show "ceillog2 n \<le> j" using ceillog2_le_iff[OF n(1)] by simp
  qed
  show ?thesis
    using above lowest next_power_of_2_small[OF pos small]
    by (intro exI[of _ "ceillog2 n"]) (simp add: n_def)
qed

lemma float_of_int_rounds: "float_of_int (2 ^ 60 + 1) = 2 ^ 60"
proof -
  have "bitlen (2 ^ 60 + 1) = 61"
    using bitlen_twopow_add_eq[of 1 60] by simp
  then show ?thesis by (simp add: float_of_int_def)
qed

text \<open>
  C5. \<open>next_power_of_2\<close> is to map every requested size to the next power of two at or
  above it. It does so for the sizes 0, 5, 8 and 9 (\<open>next_power_of_2_examples\<close>) and for
  small sizes, but not for every size: the size \<open>2^60 + 1\<close> becomes the double \<open>2^60\<close>
  inside \<open>math.log2\<close>, whose logarithm is 60, and the result \<open>2^60\<close> is below the
  requested size.
\<close>

theorem next_power_of_2_below_request:
  "next_power_of_2 (2 ^ 60 + 1) = Inr (2 ^ 60) \<and> (2 ^ 60 :: int) < 2 ^ 60 + 1"
proof -
  have "nat (2 ^ 60) = (2 ^ 60 :: nat)"
    by simp
  then have "ceillog2 (nat (2 ^ 60)) = 60"
    by (simp only: ceillog2_2_power)
  then have "next_power_of_2 (2 ^ 60 + 1) = Inr (2 ^ 60)"
    unfolding next_power_of_2_def float_of_int_rounds by simp
  then show ?thesis by simp
qed

section \<open>The indexer\<close>

lemma in_database_iff: "in_database file ds \<longleftrightarrow> file \<in> doc_id ` set ds"
  by (auto simp: in_database_def count_id_def filter_empty_conv)

text \<open>
  C7. Inserting a record whose identity is in the store raises the duplicate-key error
  inside \<open>_add_to_database\<close>, which catches it: the line \<open>Duplicate key: ...\<close> is
  printed and the store is left as it was. A record with a fresh identity is appended.
\<close>

theorem add_to_database_insert_only:
  "(file \<in> doc_id ` set (db w) \<longrightarrow>
      insert_one \<lparr>file_size = fsize, image_size = isize, capture_time = ctime,
                  doc_id = file, hash = h\<rparr> (db w) = Inl DuplicateKeyError \<and>
      add_to_database (file, h, fsize, isize, ctime) w = cprint (''Duplicate key: '' @ file) w \<and>
      db (add_to_database (file, h, fsize, isize, ctime) w) = db w) \<and>
   (file \<notin> doc_id ` set (db w) \<longrightarrow>
      add_to_database (file, h, fsize, isize, ctime) w =
        w\<lparr>db := db w @ [\<lparr>file_size = fsize, image_size = isize, capture_time = ctime,
                           doc_id = file, hash = h\<rparr>]\<rparr>)"
  using in_database_iff[of "file" "db w"]
  by (simp add: add_to_database_def insert_one_def in_database_def cprint_def)

theorem add_to_database_insert_only_witness:
  "''/pics/a.jpg'' \<in> doc_id ` set (db (sample_world {})) \<and>
   add_to_database (''/pics/a.jpg'', ''FFFF'', 7, ''1 x 1'', ''Time unknown'') (sample_world {}) =
     cprint ''Duplicate key: /pics/a.jpg'' (sample_world {}) \<and>
   db (add_to_database (''/pics/a.jpg'', ''FFFF'', 7, ''1 x 1'', ''Time unknown'') (sample_world {})) =
     sample_store \<and>
   ''/pics/z.jpg'' \<notin> doc_id ` set (db (sample_world {})) \<and>
   db (add_to_database (''/pics/z.jpg'', ''FFFF'', 7, ''1 x 1'', ''Time unknown'') (sample_world {})) =
     sample_store @ [\<lparr>file_size = 7, image_size = ''1 x 1'', capture_time = ''Time unknown'',
                      doc_id = ''/pics/z.jpg'', hash = ''FFFF''\<rparr>]"
proof -
  have present: "''/pics/a.jpg'' \<in> doc_id ` set (db (sample_world {}))"
    by (simp add: sample_world_def sample_store_def sample_doc_def)
  have fresh: "''/pics/z.jpg'' \<notin> doc_id ` set (db (sample_world {}))"
    by (simp add: sample_world_def sample_store_def sample_doc_def)
  have store: "db (sample_world {}) = sample_store"
    by (simp add: sample_world_def)
  from add_to_database_insert_only
    [of "''/pics/a.jpg''" "sample_world {}" 7 "''1 x 1''" "''Time unknown''" "''FFFF''"] present
  have dup: "add_to_database (''/pics/a.jpg'', ''FFFF'', 7, ''1 x 1'', ''Time unknown'') (sample_world {}) =
      cprint (''Duplicate key: '' @ ''/pics/a.jpg'') (sample_world {})"
    "db (add_to_database (''/pics/a.jpg'', ''FFFF'', 7, ''1 x 1'', ''Time unknown'') (sample_world {})) =
      db (sample_world {})"
    by blast+
  from add_to_database_insert_only
    [of "''/pics/z.jpg''" "sample_world {}" 7 "''1 x 1''" "''Time unknown''" "''FFFF''"] fresh
  have new: "add_to_database (''/pics/z.jpg'', ''FFFF'', 7, ''1 x 1'', ''Time unknown'') (sample_world {}) =
      (sample_world {})\<lparr>db := db (sample_world {}) @
        [\<lparr>file_size = 7, image_size = ''1 x 1'', capture_time = ''Time unknown'',
          doc_id = ''/pics/z.jpg'', hash = ''FFFF''\<rparr>]\<rparr>"
    by blast
  show ?thesis using present fresh dup new store by simp
qed

lemma hash_file_fst: "hash_file env f n = Some (a, rest) \<Longrightarrow> a = f"
  by (auto simp: hash_file_def Let_def split: option.splits)

lemma yield_not_none_eq: "yield_not_none rs = map the (filter (\<lambda>r. r \<noteq> None) rs)"
  by (induction rs rule: yield_not_none.induct) simp_all


lemma db_cprint [simp]: "db (cprint msg w) = db w"
  by (simp add: cprint_def)

lemma add_to_database_ids:
  "doc_id ` set (db (add_to_database r w)) = insert (fst r) (doc_id ` set (db w))"
  using in_database_iff[of "fst r" "db w"]
  by (cases r) (auto simp: add_to_database_def insert_one_def in_database_def)

lemma foldl_add_to_database_ids:
  "doc_id ` set (db (foldl (\<lambda>w' r. add_to_database r w') w rs)) = doc_id ` set (db w) \<union> fst ` set rs"
  by (induction rs arbitrary: w) (auto simp: add_to_database_ids)

lemma new_image_files_result:
  "new_image_files fs w = (r, w') \<Longrightarrow>
   r = filter (\<lambda>f. f \<notin> doc_id ` set (db w)) fs \<and> db w' = db w"
proof (induction fs arbitrary: w r w')
  case Nil
  then show ?case by simp
next
  case (Cons f fs)
  show ?case
  proof (cases "in_database f (db w)")
    case True
    with Cons.prems have "new_image_files fs (cprint (CHR 0x09 # ''Already hashed '' @ f) w) = (r, w')"
      by simp
    from Cons.IH[OF this] True show ?thesis by (simp add: in_database_iff)
  next
    case False
    obtain r0 w0 where rest: "new_image_files fs w = (r0, w0)"
      by (cases "new_image_files fs w")
    with Cons.prems False have "r = f # r0" "w' = w0" by simp_all
    with Cons.IH[OF rest] False show ?thesis by (simp add: in_database_iff)
  qed
qed

lemma new_image_files_eq:
  "fst (new_image_files fs w) = filter (\<lambda>f. f \<notin> doc_id ` set (db w)) fs \<and>
   db (snd (new_image_files fs w)) = db w"
  using new_image_files_result[of fs w "fst (new_image_files fs w)" "snd (new_image_files fs w)"]
  by simp

lemma add_path_db:
  "db (add_path env p w) =
   db (foldl (\<lambda>w' r. add_to_database r w') (snd (new_image_files (image_files env p) (cprint (''Hashing '' @ p) w)))
     (hash_files_parallel env (filter (\<lambda>f. f \<notin> doc_id ` set (db w)) (image_files env p))))"
proof -
  let ?w1 = "cprint (''Hashing '' @ p) w"
  obtain fs w2 where nf: "new_image_files (image_files env p) ?w1 = (fs, w2)"
    by (cases "new_image_files (image_files env p) ?w1")
  from new_image_files_result[OF nf]
  have fs: "fs = filter (\<lambda>f. f \<notin> doc_id ` set (db w)) (image_files env p)"
    by simp
  have "add_path env p w = cprint ''...done'' (foldl (\<lambda>w' r. add_to_database r w') w2 (hash_files_parallel env fs))"
    unfolding add_path_def Let_def nf by simp
  then show ?thesis using nf fs by simp
qed

lemma hash_files_parallel_fst:
  "map fst (hash_files_parallel env fs) = filter (\<lambda>f. hash_file env f (HASH_SIZE env) \<noteq> None) fs"
  unfolding hash_files_parallel_def yield_not_none_eq
  by (induction fs) (auto dest: hash_file_fst)

lemma add_path_ids:
  "doc_id ` set (db (add_path env p w)) =
   doc_id ` set (db w) \<union> {f \<in> set (image_files env p). hash_file env f (HASH_SIZE env) \<noteq> None}"
proof -
  let ?fs = "filter (\<lambda>f. f \<notin> doc_id ` set (db w)) (image_files env p)"
  have "fst ` set (hash_files_parallel env ?fs) = {f \<in> set ?fs. hash_file env f (HASH_SIZE env) \<noteq> None}"
    using hash_files_parallel_fst[of env ?fs] by (metis set_filter set_map)
  then show ?thesis
    unfolding add_path_db foldl_add_to_database_ids
    by (auto simp: new_image_files_eq)
qed

lemma add_path_unchanged:
  assumes "\<forall>f\<in>set (image_files env p). hash_file env f (HASH_SIZE env) \<noteq> None \<longrightarrow> f \<in> doc_id ` set (db w)"
  shows "db (add_path env p w) = db w"
proof -
  let ?fs = "filter (\<lambda>f. f \<notin> doc_id ` set (db w)) (image_files env p)"
  have "map fst (hash_files_parallel env ?fs) = []"
    unfolding hash_files_parallel_fst using assms by (auto simp: filter_empty_conv)
  then have "hash_files_parallel env ?fs = []" by simp
  then show ?thesis unfolding add_path_db by (simp add: new_image_files_eq)
qed

lemma add_ids_mono: "doc_id ` set (db w) \<subseteq> doc_id ` set (db (add env paths w))"
proof (induction paths arbitrary: w)
  case Nil show ?case by simp
next
  case (Cons p paths)
  have "doc_id ` set (db w) \<subseteq> doc_id ` set (db (add_path env p w))"
    by (simp add: add_path_ids)
  also have "\<dots> \<subseteq> doc_id ` set (db (add env paths (add_path env p w)))"
    by (rule Cons.IH)
  finally show ?case by simp
qed

lemma add_covers:
  "p \<in> set paths \<Longrightarrow> f \<in> set (image_files env p) \<Longrightarrow> hash_file env f (HASH_SIZE env) \<noteq> None \<Longrightarrow>
   f \<in> doc_id ` set (db (add env paths w))"
proof (induction paths arbitrary: w)
  case Nil then show ?case by simp
next
  case (Cons q paths)
  show ?case
  proof (cases "p = q")
    case True
    with Cons.prems have "f \<in> doc_id ` set (db (add_path env q w))"
      by (simp add: add_path_ids)
    then show ?thesis using add_ids_mono[of "add_path env q w" env paths] by auto
  next
    case False
    with Cons show ?thesis by simp
  qed
qed

lemma add_unchanged:
  "\<forall>p\<in>set paths. \<forall>f\<in>set (image_files env p).
      hash_file env f (HASH_SIZE env) \<noteq> None \<longrightarrow> f \<in> doc_id ` set (db w) \<Longrightarrow>
   db (add env paths w) = db w"
proof (induction paths arbitrary: w)
  case Nil show ?case by simp
next
  case (Cons p paths)
  have same: "db (add_path env p w) = db w"
    using Cons.prems by (intro add_path_unchanged) simp
  have "db (add env paths (add_path env p w)) = db (add_path env p w)"
    using Cons.prems by (intro Cons.IH) (simp add: same)
  with same show ?case by simp
qed

text \<open>
  C6. Running \<open>add\<close> a second time on the same paths leaves the store as the first
  run left it, so the record count is the same: \<open>new_image_files\<close> passes on exactly the
  files that are not in the store, and after a first run on a path none of the files it
  passes on can be hashed, so nothing is inserted and no insertion is even attempted.
\<close>

theorem add_idempotent:
  "db (add env paths (add env paths w)) = db (add env paths w) \<and>
   length (db (add env paths (add env paths w))) = length (db (add env paths w)) \<and>
   fst (new_image_files fs w) = filter (\<lambda>f. f \<notin> doc_id ` set (db w)) fs \<and>
   hash_files_parallel env (fst (new_image_files (image_files env p) (add env [p] w))) = []"
proof -
  have a: "db (add env paths (add env paths w)) = db (add env paths w)"
    by (intro add_unchanged) (auto intro: add_covers)
  have "map fst (hash_files_parallel env (fst (new_image_files (image_files env p) (add env [p] w)))) = []"
    unfolding hash_files_parallel_fst
    by (auto simp: filter_empty_conv new_image_files_eq add_path_ids)
  then have b: "hash_files_parallel env (fst (new_image_files (image_files env p) (add env [p] w))) = []"
    by simp
  show ?thesis using a b by (simp add: new_image_files_eq)
qed

section \<open>Metadata\<close>

lemma foldl_exif_none:
  "foldl (\<lambda>m (k, v). case TAGS env k of None \<Rightarrow> m | Some name \<Rightarrow> m(name \<mapsto> v)) m0 kvs tag = None
   \<longleftrightarrow> m0 tag = None \<and> (\<forall>(k, v)\<in>set kvs. TAGS env k \<noteq> Some tag)"
proof (induction kvs arbitrary: m0)
  case Nil
  show ?case by simp
next
  case (Cons kv kvs)
  obtain k v where kv: "kv = (k, v)" by (cases kv)
  let ?m1 = "case TAGS env k of None \<Rightarrow> m0 | Some name \<Rightarrow> m0(name \<mapsto> v)"
  have step: "?m1 tag = None \<longleftrightarrow> m0 tag = None \<and> TAGS env k \<noteq> Some tag"
    by (cases "TAGS env k") auto
  show ?case
    unfolding kv using Cons.IH[of ?m1] step by simp
qed

lemma exif_by_name_none:
  "exif_by_name env kvs tag = None \<longleftrightarrow> (\<forall>(k, v)\<in>set kvs. TAGS env k \<noteq> Some tag)"
  by (simp add: exif_by_name_def foldl_exif_none)

text \<open>
  C9. For an opened image the capture-time reader always returns a value: the sentinel
  \<open>Time unknown\<close> whenever reading the timestamp raises (no \<open>_getexif\<close>, a failing or
  empty \<open>_getexif\<close>, no \<open>DateTimeOriginal\<close> among the tags), the timestamp otherwise.
  The byte size is 0 for a file that is not found, and \<open>hash_file\<close> of a file that opens
  returns its result with the three metadata values.
\<close>

theorem metadata_total:
  "(read_capture_time env img = Inl e \<longrightarrow> get_capture_time env img = ''Time unknown'') \<and>
   (read_capture_time env img = Inr v \<longrightarrow> get_capture_time env img = v) \<and>
   (getexif img = NoGetexif \<or> getexif img = GetexifRaises \<or> getexif img = GetexifNone \<longrightarrow>
      get_capture_time env img = ''Time unknown'') \<and>
   (getexif img = GetexifDict kvs \<and> (\<forall>(k, v)\<in>set kvs. TAGS env k \<noteq> Some ''DateTimeOriginal'') \<longrightarrow>
      get_capture_time env img = ''Time unknown'') \<and>
   (getsize env f = None \<longrightarrow> get_file_size env f = 0) \<and>
   (img_open env f = Some img \<longrightarrow>
      hash_file env f n =
        Some (f, fingerprint env img n, get_file_size env f, get_image_size img,
              get_capture_time env img))"
proof -
  have absent: "get_capture_time env img = ''Time unknown''"
    if "getexif img = GetexifDict kvs" "\<forall>(k, v)\<in>set kvs. TAGS env k \<noteq> Some ''DateTimeOriginal''"
    using that exif_by_name_none[of env kvs "''DateTimeOriginal''"]
    by (simp add: get_capture_time_def read_capture_time_def)
  have unreadable: "get_capture_time env img = ''Time unknown''"
    if "getexif img = NoGetexif \<or> getexif img = GetexifRaises \<or> getexif img = GetexifNone"
    using that by (auto simp: get_capture_time_def read_capture_time_def)
  show ?thesis
    using absent unreadable
    by (simp add: get_capture_time_def get_file_size_def hash_file_def)
qed

theorem metadata_total_witness:
  "getexif sample_image = GetexifDict [(306, ''2020:01:01 10:00:00'')] \<and>
   TAGS sample_env 306 \<noteq> Some ''DateTimeOriginal'' \<and>
   get_capture_time sample_env sample_image = ''Time unknown'' \<and>
   getsize sample_env ''/pics/b.jpg'' = None \<and>
   get_file_size sample_env ''/pics/b.jpg'' = 0 \<and>
   img_open sample_env ''/pics/a.jpg'' = Some sample_image \<and>
   hash_file sample_env ''/pics/a.jpg'' 8 =
     Some (''/pics/a.jpg'', fingerprint sample_env sample_image 8, 1024, ''3 x 2'', ''Time unknown'')"
proof -
  have tags: "\<forall>(k, v)\<in>set [(306::nat, ''2020:01:01 10:00:00'')]. TAGS sample_env k \<noteq> Some ''DateTimeOriginal''"
    by (simp add: sample_env_def)
  have ex: "getexif sample_image = GetexifDict [(306, ''2020:01:01 10:00:00'')]"
    by (simp add: sample_image_def)
  have nosize: "getsize sample_env ''/pics/b.jpg'' = None"
    by (simp add: sample_env_def)
  have opened: "img_open sample_env ''/pics/a.jpg'' = Some sample_image"
    by (simp add: sample_env_def)
  have size_a: "get_file_size sample_env ''/pics/a.jpg'' = 1024"
    by (simp add: get_file_size_def sample_env_def)
  have dims: "get_image_size sample_image = ''3 x 2''"
    by (simp add: get_image_size_def sample_image_def str_nat.simps)
  from metadata_total [of sample_env sample_image _ _ "[(306, ''2020:01:01 10:00:00'')]" "''/pics/b.jpg''"]
    tags ex nosize
  have a: "get_capture_time sample_env sample_image = ''Time unknown''"
    "get_file_size sample_env ''/pics/b.jpg'' = 0"
    by blast+
  from metadata_total [of sample_env sample_image _ _ _ "''/pics/a.jpg''" 8] opened
  have b: "hash_file sample_env ''/pics/a.jpg'' 8 =
     Some (''/pics/a.jpg'', fingerprint sample_env sample_image 8, get_file_size sample_env ''/pics/a.jpg'',
       get_image_size sample_image, get_capture_time sample_env sample_image)"
    by blast
  show ?thesis using a b ex nosize opened size_a dims by (simp add: sample_env_def)
qed

section \<open>Rotations and the fingerprint\<close>

lemma raster_id:
  assumes "wf_image img"
  shows "map (\<lambda>r. map (\<lambda>c. pixels img ! r ! c) [0..<fst (img_size img)]) [0..<snd (img_size img)] = pixels img"
proof -
  have rows: "\<forall>r<length (pixels img). length (pixels img ! r) = fst (img_size img)"
    using assms by (simp add: wf_image_def list_all_length)
  have len: "length (pixels img) = snd (img_size img)"
    using assms by (simp add: wf_image_def)
  have "map (\<lambda>r. map (\<lambda>c. pixels img ! r ! c) [0..<fst (img_size img)]) [0..<length (pixels img)]
      = map (\<lambda>r. pixels img ! r) [0..<length (pixels img)]"
  proof (intro map_cong refl)
    fix r assume "r \<in> set [0..<length (pixels img)]"
    then have "length (pixels img ! r) = fst (img_size img)" using rows by simp
    then show "map (\<lambda>c. pixels img ! r ! c) [0..<fst (img_size img)] = pixels img ! r"
      by (metis map_nth)
  qed
  then show ?thesis by (simp add: len [symmetric] map_nth)
qed

lemma rot_90_90: "transpose_img (transpose_img img ROTATE_90) ROTATE_90 = transpose_img img ROTATE_180"
  by (cases "img_size img") (auto intro!: map_cong)

lemma rot_90_180: "transpose_img (transpose_img img ROTATE_90) ROTATE_180 = transpose_img img ROTATE_270"
  by (cases "img_size img") (auto intro!: map_cong)

lemma rot_180_90: "transpose_img (transpose_img img ROTATE_180) ROTATE_90 = transpose_img img ROTATE_270"
  by (cases "img_size img") (auto intro!: map_cong)

lemma rot_180_270: "transpose_img (transpose_img img ROTATE_180) ROTATE_270 = transpose_img img ROTATE_90"
  by (cases "img_size img") (auto intro!: map_cong)

lemma rot_270_180: "transpose_img (transpose_img img ROTATE_270) ROTATE_180 = transpose_img img ROTATE_90"
  by (cases "img_size img") (auto intro!: map_cong)

lemma rot_270_270: "transpose_img (transpose_img img ROTATE_270) ROTATE_270 = transpose_img img ROTATE_180"
  by (cases "img_size img") (auto intro!: map_cong)

lemma rot_90_270:
  assumes "wf_image img"
  shows "img_size (transpose_img (transpose_img img ROTATE_90) ROTATE_270) = img_size img \<and>
         pixels (transpose_img (transpose_img img ROTATE_90) ROTATE_270) = pixels img"
proof -
  obtain w h where sz: "img_size img = (w, h)" by (cases "img_size img")
  have "pixels (transpose_img (transpose_img img ROTATE_90) ROTATE_270) =
        map (\<lambda>r. map (\<lambda>c. pixels img ! r ! c) [0..<w]) [0..<h]"
    by (auto simp: sz intro!: map_cong)
  with raster_id[OF assms] show ?thesis by (simp add: sz)
qed

lemma rot_180_180:
  assumes "wf_image img"
  shows "img_size (transpose_img (transpose_img img ROTATE_180) ROTATE_180) = img_size img \<and>
         pixels (transpose_img (transpose_img img ROTATE_180) ROTATE_180) = pixels img"
proof -
  obtain w h where sz: "img_size img = (w, h)" by (cases "img_size img")
  have "pixels (transpose_img (transpose_img img ROTATE_180) ROTATE_180) =
        map (\<lambda>r. map (\<lambda>c. pixels img ! r ! c) [0..<w]) [0..<h]"
    by (auto simp: sz intro!: map_cong)
  with raster_id[OF assms] show ?thesis by (simp add: sz)
qed

lemma rot_270_90:
  assumes "wf_image img"
  shows "img_size (transpose_img (transpose_img img ROTATE_270) ROTATE_90) = img_size img \<and>
         pixels (transpose_img (transpose_img img ROTATE_270) ROTATE_90) = pixels img"
proof -
  obtain w h where sz: "img_size img = (w, h)" by (cases "img_size img")
  have "pixels (transpose_img (transpose_img img ROTATE_270) ROTATE_90) =
        map (\<lambda>r. map (\<lambda>c. pixels img ! r ! c) [0..<w]) [0..<h]"
    by (auto simp: sz intro!: map_cong)
  with raster_id[OF assms] show ?thesis by (simp add: sz)
qed

lemma sort_perm: "mset xs = mset ys \<Longrightarrow> sort xs = sort (ys :: 'a::linorder list)"
  by (metis properties_for_sort sorted_sort mset_sort)

lemma rotate_expand_numerals [simp]:
  "rotate_expand img 90 = transpose_img img ROTATE_90"
  "rotate_expand img 180 = transpose_img img ROTATE_180"
  "rotate_expand img 270 = transpose_img img ROTATE_270"
  by (simp_all add: rotate_expand_def)

lemma fingerprint_hashes:
  "fingerprint env img n =
     concat (sort [str_phash env img n, str_phash env (rotate_expand img 90) n,
                   str_phash env (rotate_expand img 180) n, str_phash env (rotate_expand img 270) n])"
proof -
  have "map (\<lambda>angle. str_phash env (if 0 < angle then rotate_expand img angle else img) n) [0, 90, 180, 270] =
        [str_phash env img n, str_phash env (rotate_expand img 90) n,
         str_phash env (rotate_expand img 180) n, str_phash env (rotate_expand img 270) n]"
    by simp
  then show ?thesis unfolding fingerprint_def by (rule arg_cong)
qed

text \<open>
  C4. The fingerprint of a decoded image (a raster whose rows have the width and whose row
  count is the height of its size) is the fingerprint of the image rotated by 90, by 180
  and by 270 degrees: the four rotations of a rotated image are the four rotations of the
  image, in another order, and the hashes are sorted before they are joined. The perceptual
  hash is any function of the raster.
\<close>

theorem fingerprint_rotation_invariant:
  assumes "wf_image img"
  shows "fingerprint env (rotate_expand img 90) n = fingerprint env img n \<and>
         fingerprint env (rotate_expand img 180) n = fingerprint env img n \<and>
         fingerprint env (rotate_expand img 270) n = fingerprint env img n"
proof -
  let ?h0 = "str_phash env img n"
  let ?h90 = "str_phash env (rotate_expand img 90) n"
  let ?h180 = "str_phash env (rotate_expand img 180) n"
  let ?h270 = "str_phash env (rotate_expand img 270) n"
  have back90: "str_phash env (rotate_expand (rotate_expand img 90) 270) n = ?h0"
    using rot_90_270[OF assms] by (simp add: str_phash_def)
  have back180: "str_phash env (rotate_expand (rotate_expand img 180) 180) n = ?h0"
    using rot_180_180[OF assms] by (simp add: str_phash_def)
  have back270: "str_phash env (rotate_expand (rotate_expand img 270) 90) n = ?h0"
    using rot_270_90[OF assms] by (simp add: str_phash_def)
  have r90: "rotate_expand (rotate_expand img 90) 90 = rotate_expand img 180" "rotate_expand (rotate_expand img 90) 180 = rotate_expand img 270"
    by (simp_all only: rotate_expand_numerals rot_90_90 rot_90_180)
  have r180: "rotate_expand (rotate_expand img 180) 90 = rotate_expand img 270" "rotate_expand (rotate_expand img 180) 270 = rotate_expand img 90"
    by (simp_all only: rotate_expand_numerals rot_180_90 rot_180_270)
  have r270: "rotate_expand (rotate_expand img 270) 180 = rotate_expand img 90" "rotate_expand (rotate_expand img 270) 270 = rotate_expand img 180"
    by (simp_all only: rotate_expand_numerals rot_270_180 rot_270_270)
  have p90: "sort [?h90, ?h180, ?h270, ?h0] = sort [?h0, ?h90, ?h180, ?h270]"
    by (rule sort_perm) simp
  have p180: "sort [?h180, ?h270, ?h0, ?h90] = sort [?h0, ?h90, ?h180, ?h270]"
    by (rule sort_perm) simp
  have p270: "sort [?h270, ?h0, ?h90, ?h180] = sort [?h0, ?h90, ?h180, ?h270]"
    by (rule sort_perm) simp
  have "fingerprint env (rotate_expand img 90) n = fingerprint env img n"
    by (simp only: fingerprint_hashes r90 back90 p90)
  moreover have "fingerprint env (rotate_expand img 180) n = fingerprint env img n"
    by (simp only: fingerprint_hashes r180 back180 p180)
  moreover have "fingerprint env (rotate_expand img 270) n = fingerprint env img n"
    by (simp only: fingerprint_hashes r270 back270 p270)
  ultimately show ?thesis by blast
qed

theorem fingerprint_rotation_invariant_witness:
  "wf_image sample_image \<and>
   pixels (rotate_expand sample_image 90) = [[3, 6], [2, 5], [1, 4]] \<and>
   fingerprint sample_env (rotate_expand sample_image 90) 8 = fingerprint sample_env sample_image 8 \<and>
   fingerprint sample_env (rotate_expand sample_image 180) 8 = fingerprint sample_env sample_image 8 \<and>
   fingerprint sample_env (rotate_expand sample_image 270) 8 = fingerprint sample_env sample_image 8"
proof -
  have wf: "wf_image sample_image"
    by (simp add: wf_image_def sample_image_def)
  have px: "pixels (rotate_expand sample_image 90) = [[3, 6], [2, 5], [1, 4]]"
    by (simp add: rotate_expand_def sample_image_def upt_rec)
  from fingerprint_rotation_invariant [OF wf, of sample_env 8] wf px show ?thesis by simp
qed

section \<open>Disposal\<close>

























lemma find_dups_keepers_apart:
  assumes ids: "distinct (map doc_id ds)"
  shows "\<forall>c\<in>set (find_dups ds mt). items c \<noteq> [] \<longrightarrow>
           file_name (hd (items c)) \<notin> set (doomed (find_dups ds mt))"
proof (intro ballI impI notI)
  fix c
  assume c: "c \<in> set (find_dups ds mt)" and ne: "items c \<noteq> []"
    and bad: "file_name (hd (items c)) \<in> set (doomed (find_dups ds mt))"
  let ?G = "group_by_hash ds"
  have sub: "set (find_dups ds mt) \<subseteq> set ?G"
    using find_dups_subset[of ds mt] by auto
  have inj_c: "inj_on cluster_id (set ?G)"
    using group_by_hash_grouped[of ds] by (simp add: distinct_map)
  have inj_d: "inj_on doc_id (set ds)"
    using ids by (simp add: distinct_map)
  let ?F = "filter (\<lambda>d. hash d = cluster_id c) ds"
  have gc: "items c = map item_of ?F"
    using c sub group_by_hash_grouped[of ds] by (auto simp: grouped_def)
  then have Fne: "?F \<noteq> []" using ne by auto
  have hdF: "hd ?F \<in> set ?F" using Fne by (rule hd_in_set)
  have k: "file_name (hd (items c)) = doc_id (hd ?F)"
    using Fne by (simp add: gc hd_map item_of_def)
  from bad obtain c' x where c': "c' \<in> set (find_dups ds mt)" and x: "x \<in> set (tl (items c'))"
    and fx: "file_name x = file_name (hd (items c))"
    by (auto simp: doomed_def)
  let ?F' = "filter (\<lambda>d. hash d = cluster_id c') ds"
  have gc': "items c' = map item_of ?F'"
    using c' sub group_by_hash_grouped[of ds] by (auto simp: grouped_def)
  from x obtain d' where d': "d' \<in> set (tl ?F')" and xd: "x = item_of d'"
    by (auto simp: gc' map_tl [symmetric])
  have d'F: "d' \<in> set ?F'" using d' by (metis list.sel(2) list.set_sel(2))
  have "doc_id d' = doc_id (hd ?F)"
    using fx k xd by (simp add: item_of_def)
  then have same: "d' = hd ?F"
    using inj_d d'F hdF by (auto dest: inj_onD)
  then have "cluster_id c' = cluster_id c" using d'F hdF by auto
  then have "c' = c" using inj_c c c' sub by (auto dest: inj_onD)
  then have "hd ?F \<in> set (tl ?F)" using d' same by simp
  moreover have "distinct ?F" using ids by (metis distinct_filter distinct_map)
  ultimately show False using Fne by (cases ?F) auto
qed




end
